theory Spec2Isabelle
  imports Complex_Main "HOL-Library.Word"
begin

unbundle bit_operations_syntax

section \<open>The MAX6675 thermocouple driver\<close>

text \<open>
  A shallow embedding of \<^verbatim>\<open>src/MAX6675_Thermocouple.cpp\<close> and its header.

  The driver includes \<^verbatim>\<open><deque>\<close> and uses \<^verbatim>\<open>auto\<close>, so it builds on the 32-bit
  Arduino cores that ship the C++ standard library. There \<^verbatim>\<open>int\<close>,
  \<^verbatim>\<open>unsigned int\<close> and \<^verbatim>\<open>unsigned long\<close> are 32 bits wide and \<^verbatim>\<open>byte\<close> is 8 bits.
\<close>

type_synonym byte = "8 word"
type_synonym c_int = "32 word"
type_synonym c_uint = "32 word"
type_synonym c_ulong = "32 word"

subsection \<open>Doubles\<close>

text \<open>
  A \<^verbatim>\<open>double\<close> is either the not-a-number value or a finite real. Every
  arithmetic operation computes the real result and rounds it with the
  rounding function \<open>rnd\<close>, which is a parameter of the model: a theorem
  that holds for every \<open>rnd\<close> holds for the rounding of the hardware,
  \<open>binary64\<close> below.
  Infinities are left out: the divisors of the driver are non-zero and its
  magnitudes stay far below the overflow threshold. An operation with a
  not-a-number operand yields not-a-number, and every ordered comparison and
  \<^verbatim>\<open>==\<close> with such an operand is false, so \<^verbatim>\<open>!=\<close> is true.
\<close>

datatype double = NaN | Fin real

type_synonym rounding = "real \<Rightarrow> real"

definition dadd :: "rounding \<Rightarrow> double \<Rightarrow> double \<Rightarrow> double" where
  "dadd rnd a b =
     (case a of NaN \<Rightarrow> NaN
      | Fin x \<Rightarrow> (case b of NaN \<Rightarrow> NaN | Fin y \<Rightarrow> Fin (rnd (x + y))))"

definition dmul :: "rounding \<Rightarrow> double \<Rightarrow> double \<Rightarrow> double" where
  "dmul rnd a b =
     (case a of NaN \<Rightarrow> NaN
      | Fin x \<Rightarrow> (case b of NaN \<Rightarrow> NaN | Fin y \<Rightarrow> Fin (rnd (x * y))))"

text \<open>
  A zero divisor does not occur in the driver (it divides by the validated
  window size and by the literal 5.0); the model answers not-a-number there.
\<close>

definition ddiv :: "rounding \<Rightarrow> double \<Rightarrow> double \<Rightarrow> double" where
  "ddiv rnd a b =
     (case a of NaN \<Rightarrow> NaN
      | Fin x \<Rightarrow> (case b of NaN \<Rightarrow> NaN
                  | Fin y \<Rightarrow> if y = 0 then NaN else Fin (rnd (x / y))))"

text \<open>The operator \<^verbatim>\<open>!=\<close> on doubles.\<close>

definition dne :: "double \<Rightarrow> double \<Rightarrow> bool" where
  "dne a b =
     (case a of NaN \<Rightarrow> True
      | Fin x \<Rightarrow> (case b of NaN \<Rightarrow> True | Fin y \<Rightarrow> x \<noteq> y))"

text \<open>
  Conversions of 32-bit integers to double are exact, as every such integer
  is a binary64 number. The literals 0.25, 9.0 and 5.0 of the driver are
  binary64 numbers too and denote themselves (\<open>Fin (1/4)\<close>, \<open>Fin 9\<close>,
  \<open>Fin 5\<close>); 273.15 is not, and \<open>dlit\<close> rounds it.
\<close>

definition double_of_int :: "c_int \<Rightarrow> double" where
  "double_of_int v = Fin (real_of_int (sint v))"

definition double_of_uint :: "c_uint \<Rightarrow> double" where
  "double_of_uint n = Fin (real (unat n))"

definition dlit :: "rounding \<Rightarrow> real \<Rightarrow> double" where
  "dlit rnd x = Fin (rnd x)"

text \<open>
  The rounding of binary64 arithmetic: to the nearest number with a
  significand of 53 bits, a tie to the one with an even significand. The
  exponent range is taken as unbounded (no overflow, no gradual underflow),
  which the magnitudes of the driver never leave.
\<close>

definition round_even :: "real \<Rightarrow> int" where
  "round_even y =
     (let n = \<lfloor>y\<rfloor>; f = y - of_int n
      in if f < 1 / 2 then n else if 1 / 2 < f then n + 1
         else if even n then n else n + 1)"

definition binary64 :: "real \<Rightarrow> real" where
  "binary64 x =
     (if x = 0 then 0
      else (let u = (2 :: real) powr of_int (\<lfloor>log 2 \<bar>x\<bar>\<rfloor> - 52)
            in u * of_int (round_even (x / u))))"

subsection \<open>The object and the world around it\<close>

record MAX6675_Thermocouple =
  SCK_pin :: c_int
  CS_pin :: c_int
  SO_pin :: c_int
  readingsNumber :: c_uint
  delayTime :: c_ulong
  dataPoints :: "double list"
  meanTempC :: double

text \<open>
  What the driver touches outside the object: the function-static variable
  \<^verbatim>\<open>lastUpdate\<close> of \<^verbatim>\<open>update()\<close>, the input line (the level that the
  k-th call of \<^verbatim>\<open>digitalRead\<close> returns, and how many calls there have
  been), and the log of the pin operations, oldest first.
  Time enters only through the value that \<^verbatim>\<open>millis()\<close> returns, which is
  an argument of \<open>update\<close>; \<^verbatim>\<open>delay\<close> lets time pass and changes nothing
  else.
\<close>

datatype pin_event = PinMode c_int bool | DigitalWrite c_int bool

record world =
  lastUpdate :: c_ulong
  SO_input :: "nat \<Rightarrow> bool"
  SO_reads :: nat
  pin_log :: "pin_event list"

definition OUTPUT :: bool where "OUTPUT = True"
definition INPUT :: bool where "INPUT = False"
definition HIGH :: bool where "HIGH = True"
definition LOW :: bool where "LOW = False"

definition pinMode :: "c_int \<Rightarrow> bool \<Rightarrow> world \<Rightarrow> world" where
  "pinMode pin mode w = w\<lparr>pin_log := pin_log w @ [PinMode pin mode]\<rparr>"

definition digitalWrite :: "c_int \<Rightarrow> bool \<Rightarrow> world \<Rightarrow> world" where
  "digitalWrite pin lvl w = w\<lparr>pin_log := pin_log w @ [DigitalWrite pin lvl]\<rparr>"

definition digitalRead :: "c_int \<Rightarrow> world \<Rightarrow> world \<times> bool" where
  "digitalRead pin w = (w\<lparr>SO_reads := Suc (SO_reads w)\<rparr>, SO_input w (SO_reads w))"

definition delay :: "nat \<Rightarrow> world \<Rightarrow> world" where
  "delay ms w = w"

definition MAX6675_DEFAULT_READINGS_NUMBER :: "32 word" where
  "MAX6675_DEFAULT_READINGS_NUMBER = 5"

definition MAX6675_DEFAULT_DELAY_TIME :: "32 word" where
  "MAX6675_DEFAULT_DELAY_TIME = 250"

subsection \<open>Configuration\<close>

text \<open>
  \<^verbatim>\<open>validate\<close> is instantiated at \<^verbatim>\<open>unsigned int\<close> and at \<^verbatim>\<open>unsigned long\<close>,
  with the default converted to the type of the data.
\<close>

definition validate :: "32 word \<Rightarrow> 32 word \<Rightarrow> 32 word" where
  "validate data min' = (if data > 0 then data else min')"

definition setReadingsNumber :: "c_uint \<Rightarrow> MAX6675_Thermocouple \<Rightarrow> MAX6675_Thermocouple" where
  "setReadingsNumber newReadingsNumber d =
     d\<lparr>readingsNumber := validate newReadingsNumber MAX6675_DEFAULT_READINGS_NUMBER,
       dataPoints := []\<rparr>"

definition setDelayTime :: "c_ulong \<Rightarrow> MAX6675_Thermocouple \<Rightarrow> MAX6675_Thermocouple" where
  "setDelayTime newDelayTime d =
     d\<lparr>delayTime := validate newDelayTime MAX6675_DEFAULT_DELAY_TIME\<rparr>"

definition init :: "MAX6675_Thermocouple \<Rightarrow> world \<Rightarrow> world" where
  "init d w =
     digitalWrite (CS_pin d) HIGH
       (pinMode (SO_pin d) INPUT
         (pinMode (CS_pin d) OUTPUT
           (pinMode (SCK_pin d) OUTPUT w)))"

text \<open>
  The five-argument constructor. It assigns the pins, the window size, the
  queue and the delay; it does not assign \<^verbatim>\<open>meanTempC\<close>, which keeps
  whatever the storage \<open>raw\<close> of the object held (all zero bits for an
  object of static storage duration). Its last step, \<open>init\<close>, acts on the
  pins only. The three-argument constructor delegates to it with the two
  defaults.
\<close>

definition construct5 ::
  "c_int \<Rightarrow> c_int \<Rightarrow> c_int \<Rightarrow> c_uint \<Rightarrow> c_ulong \<Rightarrow> MAX6675_Thermocouple
     \<Rightarrow> MAX6675_Thermocouple" where
  "construct5 sck cs so n t raw =
     setDelayTime t
       ((setReadingsNumber n (raw\<lparr>SCK_pin := sck, CS_pin := cs, SO_pin := so\<rparr>))
          \<lparr>dataPoints := []\<rparr>)"

definition construct3 ::
  "c_int \<Rightarrow> c_int \<Rightarrow> c_int \<Rightarrow> MAX6675_Thermocouple \<Rightarrow> MAX6675_Thermocouple" where
  "construct3 sck cs so raw =
     construct5 sck cs so MAX6675_DEFAULT_READINGS_NUMBER MAX6675_DEFAULT_DELAY_TIME raw"

subsection \<open>The protocol read\<close>

text \<open>
  The loop of \<^verbatim>\<open>spiread\<close> runs \<open>i\<close> from 7 down to 0; \<open>spiread_loop (Suc i)\<close>
  is the iteration for bit \<open>i\<close> followed by the remaining ones.
\<close>

fun spiread_loop :: "MAX6675_Thermocouple \<Rightarrow> nat \<Rightarrow> world \<times> byte \<Rightarrow> world \<times> byte" where
  "spiread_loop d 0 (w, v) = (w, v)"
| "spiread_loop d (Suc i) (w, v) =
     (let w1 = delay 1 (digitalWrite (SCK_pin d) LOW w);
          (w2, b) = digitalRead (SO_pin d) w1;
          v' = (if b then v OR push_bit i 1 else v);
          w3 = delay 1 (digitalWrite (SCK_pin d) HIGH w2)
      in spiread_loop d i (w3, v'))"

definition spiread :: "MAX6675_Thermocouple \<Rightarrow> world \<Rightarrow> world \<times> byte" where
  "spiread d w = spiread_loop d 8 (w, 0)"

definition readValue :: "rounding \<Rightarrow> MAX6675_Thermocouple \<Rightarrow> world \<Rightarrow> world \<times> double" where
  "readValue rnd d w =
     (let w1 = delay 1 (digitalWrite (CS_pin d) LOW w);
          (w2, b1) = spiread d w1;
          v1 = (ucast b1 :: c_int);
          v2 = push_bit 8 v1;
          (w3, b2) = spiread d w2;
          v3 = v2 OR ucast b2;
          w4 = digitalWrite (CS_pin d) HIGH w3
      in if v3 AND 4 \<noteq> 0 then (w4, NaN)
         else (w4, dmul rnd (double_of_int (signed_drop_bit 3 v3)) (Fin (1 / 4))))"

subsection \<open>The moving average\<close>

text \<open>The loop of \<^verbatim>\<open>recalculate\<close> adds the elements front to back, starting at 0.\<close>

definition recalculate :: "rounding \<Rightarrow> MAX6675_Thermocouple \<Rightarrow> MAX6675_Thermocouple" where
  "recalculate rnd d =
     (if length (dataPoints d) \<noteq> unat (readingsNumber d) then d\<lparr>meanTempC := NaN\<rparr>
      else d\<lparr>meanTempC := foldl (dadd rnd) (Fin 0) (dataPoints d)\<rparr>)"

text \<open>
  \<open>store\<close> is the block of \<^verbatim>\<open>update()\<close> that follows the read: the
  comparison of the value with \<^verbatim>\<open>NAN\<close>, the eviction, the insertion of the
  pre-divided value and the recomputation. \<^verbatim>\<open>pop_front\<close> is \<open>tl\<close>; it is
  called on a queue of at least \<open>readingsNumber\<close> elements.
\<close>

definition store :: "rounding \<Rightarrow> double \<Rightarrow> MAX6675_Thermocouple \<Rightarrow> MAX6675_Thermocouple" where
  "store rnd value d =
     (if dne value NaN then
        (let q = (if length (dataPoints d) \<ge> unat (readingsNumber d)
                  then tl (dataPoints d) else dataPoints d)
         in recalculate rnd
              (d\<lparr>dataPoints := q @ [ddiv rnd value (double_of_uint (readingsNumber d))]\<rparr>))
      else d)"

definition update ::
  "rounding \<Rightarrow> c_ulong \<Rightarrow> world \<times> MAX6675_Thermocouple \<Rightarrow> world \<times> MAX6675_Thermocouple" where
  "update rnd now s =
     (case s of (w, d) \<Rightarrow>
        if now - lastUpdate w > delayTime d then
          (let w1 = w\<lparr>lastUpdate := now\<rparr>;
               (w2, value) = readValue rnd d w1
           in (w2, store rnd value d))
        else (w, d))"

subsection \<open>The accessors\<close>

definition readCelsius :: "MAX6675_Thermocouple \<Rightarrow> double" where
  "readCelsius d = meanTempC d"

definition celsiusToKelvin :: "rounding \<Rightarrow> double \<Rightarrow> double" where
  "celsiusToKelvin rnd celsius = dadd rnd celsius (dlit rnd 273.15)"

definition readKelvin :: "rounding \<Rightarrow> MAX6675_Thermocouple \<Rightarrow> double" where
  "readKelvin rnd d = celsiusToKelvin rnd (readCelsius d)"

definition celsiusToFahrenheit :: "rounding \<Rightarrow> double \<Rightarrow> double" where
  "celsiusToFahrenheit rnd celsius =
     dadd rnd (ddiv rnd (dmul rnd celsius (Fin 9)) (Fin 5)) (double_of_int 32)"

definition readFahrenheit :: "rounding \<Rightarrow> MAX6675_Thermocouple \<Rightarrow> double" where
  "readFahrenheit rnd d = celsiusToFahrenheit rnd (readCelsius d)"

subsection \<open>The main loop\<close>

text \<open>
  A sketch calls \<^verbatim>\<open>update()\<close> from its main loop: \<open>updates\<close> runs the
  calls for the successive values of \<^verbatim>\<open>millis()\<close>. The times are
  \<open>spaced\<close> when every call passes the gate, that is, comes more than the
  delay after the previous one (the first after \<open>prev\<close>).
\<close>

fun updates ::
  "rounding \<Rightarrow> c_ulong list \<Rightarrow> world \<times> MAX6675_Thermocouple \<Rightarrow> world \<times> MAX6675_Thermocouple" where
  "updates rnd [] s = s"
| "updates rnd (now # nows) s = updates rnd nows (update rnd now s)"

fun spaced :: "c_ulong \<Rightarrow> c_ulong \<Rightarrow> c_ulong list \<Rightarrow> bool" where
  "spaced dt prev [] = True"
| "spaced dt prev (now # nows) = (dt < now - prev \<and> spaced dt now nows)"

subsection \<open>Reachable objects\<close>

text \<open>
  The objects a program can hold: a constructed one, and what the public
  operations make of it. The accessors return a value and leave the object
  as it is.
\<close>

inductive reachable :: "MAX6675_Thermocouple \<Rightarrow> bool" where
  constructed: "reachable (construct5 sck cs so n t raw)"
| updated: "reachable d \<Longrightarrow> reachable (snd (update rnd now (w, d)))"
| window_set: "reachable d \<Longrightarrow> reachable (setReadingsNumber n d)"
| delay_set: "reachable d \<Longrightarrow> reachable (setDelayTime t d)"

subsection \<open>A test bench\<close>

text \<open>
  The world at program start (\<^verbatim>\<open>lastUpdate\<close> is initialised to 0) with a
  given input line; an input line that presents the listed 16-bit frames,
  one per transaction and most significant bit first, and is low afterwards;
  and the zero-initialised storage of an object of static storage duration.
\<close>

definition power_up :: "(nat \<Rightarrow> bool) \<Rightarrow> world" where
  "power_up line = \<lparr>lastUpdate = 0, SO_input = line, SO_reads = 0, pin_log = []\<rparr>"

definition frames_line :: "16 word list \<Rightarrow> nat \<Rightarrow> bool" where
  "frames_line fs k = (k div 16 < length fs \<and> bit (fs ! (k div 16)) (15 - k mod 16))"

definition static_storage :: MAX6675_Thermocouple where
  "static_storage =
     \<lparr>SCK_pin = 0, CS_pin = 0, SO_pin = 0, readingsNumber = 0, delayTime = 0,
      dataPoints = [], meanTempC = Fin 0\<rparr>"

section \<open>Properties\<close>

subsection \<open>The rounding\<close>

text \<open>
  Rounding to binary64 has a relative error of at most \<open>2^-53\<close>, and it
  leaves every \<open>n * 2^k\<close> with \<open>|n| < 2^53\<close> as it is.
\<close>

lemma round_even_of_int: "round_even (of_int n) = n"
  by (simp add: round_even_def)

lemma round_even_error: "\<bar>of_int (round_even y) - y\<bar> \<le> 1 / 2"
proof -
  have "of_int \<lfloor>y\<rfloor> \<le> y" "y < of_int \<lfloor>y\<rfloor> + 1" by linarith+
  then show ?thesis
    by (auto simp add: round_even_def Let_def)
qed

lemma binary64_error: "\<bar>binary64 x - x\<bar> \<le> \<bar>x\<bar> / 2 ^ 53"
proof (cases "x = 0")
  case True
  then show ?thesis by (simp add: binary64_def)
next
  case False
  define e where "e = \<lfloor>log 2 \<bar>x\<bar>\<rfloor>"
  define u :: real where "u = 2 powr of_int (e - 52)"
  have u0: "0 < u" by (simp add: u_def)
  have b: "binary64 x = u * of_int (round_even (x / u))"
    using False by (simp add: binary64_def e_def u_def Let_def)
  have "(2 :: real) powr of_int e \<le> \<bar>x\<bar>"
    using False floor_log_eq_powr_iff [of "\<bar>x\<bar>" 2 e] by (simp add: e_def)
  moreover have "(2 :: real) powr of_int e = u * 2 ^ 52"
    by (simp add: u_def powr_diff)
  ultimately have x: "u * 2 ^ 52 \<le> \<bar>x\<bar>" by simp
  have "binary64 x - x = u * (of_int (round_even (x / u)) - x / u)"
    using u0 by (simp add: b algebra_simps)
  then have "\<bar>binary64 x - x\<bar> = u * \<bar>of_int (round_even (x / u)) - x / u\<bar>"
    using u0 by (simp add: abs_mult)
  also have "\<dots> \<le> u * (1 / 2)"
    using u0 round_even_error [of "x / u"] by (intro mult_left_mono) simp_all
  also have "\<dots> = (u * 2 ^ 52) / 2 ^ 53" by simp
  also have "\<dots> \<le> \<bar>x\<bar> / 2 ^ 53" using x by (intro divide_right_mono) simp_all
  finally show ?thesis .
qed

lemma binary64_exact:
  fixes n k :: int
  assumes "\<bar>n\<bar> < 2 ^ 53"
  shows "binary64 (of_int n * 2 powr of_int k) = of_int n * 2 powr of_int k"
proof (cases "n = 0")
  case True
  then show ?thesis by (simp add: binary64_def)
next
  case False
  define x where "x = real_of_int n * 2 powr of_int k"
  define e where "e = \<lfloor>log 2 \<bar>x\<bar>\<rfloor>"
  define u :: real where "u = 2 powr of_int (e - 52)"
  have x0: "x \<noteq> 0" using False by (simp add: x_def)
  have u0: "0 < u" by (simp add: u_def)
  have ax: "\<bar>x\<bar> = real_of_int \<bar>n\<bar> * 2 powr of_int k" by (simp add: x_def abs_mult)
  have "real_of_int \<bar>n\<bar> < 2 ^ 53" using assms by (metis of_int_less_numeral_power_cancel_iff)
  then have "\<bar>x\<bar> < 2 ^ 53 * 2 powr of_int k" unfolding ax by simp
  also have "\<dots> = 2 powr of_int (k + 53)" by (simp add: powr_add)
  finally have lt: "\<bar>x\<bar> < 2 powr of_int (k + 53)" .
  have "(2 :: real) powr of_int e \<le> \<bar>x\<bar>"
    using x0 floor_log_eq_powr_iff [of "\<bar>x\<bar>" 2 e] by (simp add: e_def)
  then have "(2 :: real) powr real_of_int e < 2 powr real_of_int (k + 53)" using lt by linarith
  then have e: "e \<le> k + 52" by simp
  define j where "j = nat (k + 52 - e)"
  have j: "of_int k - of_int (e - 52) = real j" using e by (simp add: j_def)
  have "x / u = of_int n * 2 powr (of_int k - of_int (e - 52))"
    by (simp add: x_def u_def powr_diff)
  also have "\<dots> = of_int n * 2 ^ j" unfolding j by (simp add: powr_realpow)
  also have "\<dots> = of_int (n * 2 ^ j)" by simp
  finally have q: "x / u = of_int (n * 2 ^ j)" .
  have "binary64 x = u * of_int (round_even (x / u))"
    using x0 by (simp add: binary64_def e_def u_def Let_def)
  also have "\<dots> = u * (x / u)" unfolding q round_even_of_int ..
  also have "\<dots> = x" using u0 by simp
  finally show ?thesis by (simp add: x_def)
qed

lemma binary64_quarters: "q < 8192 \<Longrightarrow> binary64 (real q / 4) = real q / 4"
proof -
  assume "q < 8192"
  then have "\<bar>int q\<bar> < 2 ^ 53" by simp
  from binary64_exact [OF this, of "-2"] show ?thesis
    by (simp add: powr_minus field_simps)
qed

lemma binary64_dyadic:
  fixes n :: int
  assumes "\<bar>n\<bar> < 2 ^ 53"
  shows "binary64 (of_int n / 2 ^ j) = of_int n / 2 ^ j"
proof -
  have "(2 :: real) powr of_int (- int j) = 1 / 2 ^ j"
    by (simp add: powr_minus powr_realpow inverse_eq_divide)
  with binary64_exact [OF assms, of "- int j"] show ?thesis by simp
qed

lemma binary64_int:
  fixes n :: int
  assumes "\<bar>n\<bar> < 2 ^ 53"
  shows "binary64 (of_int n) = of_int n"
  using binary64_dyadic [OF assms, of 0] by simp

lemma binary64_bench:
  "binary64 0 = 0" "binary64 11 = 11" "binary64 20 = 20" "binary64 21 = 21"
  "binary64 22 = 22" "binary64 32 = 32" "binary64 36 = 36" "binary64 68 = 68"
  "binary64 180 = 180" "binary64 (21 / 2) = 21 / 2" "binary64 (43 / 2) = 43 / 2"
  using binary64_int [of 0] binary64_int [of 11] binary64_int [of 20] binary64_int [of 21]
    binary64_int [of 22] binary64_int [of 32] binary64_int [of 36] binary64_int [of 68]
    binary64_int [of 180] binary64_dyadic [of 21 1] binary64_dyadic [of 43 1]
  by simp_all

subsection \<open>The protocol read\<close>

text \<open>What a run of the bit loop does to the world, and which bits it sets.\<close>

lemma spiread_loop_world:
  "lastUpdate (fst (spiread_loop d i (w, v))) = lastUpdate w \<and>
   SO_input (fst (spiread_loop d i (w, v))) = SO_input w \<and>
   SO_reads (fst (spiread_loop d i (w, v))) = SO_reads w + i"
  by (induction i arbitrary: w v)
     (simp_all add: delay_def digitalWrite_def digitalRead_def Let_def)

lemma spiread_loop_bits:
  "bit (snd (spiread_loop d i (w, v))) j \<longleftrightarrow>
     bit v j \<or> (j < i \<and> j < 8 \<and> SO_input w (SO_reads w + (i - 1 - j)))"
proof (induction i arbitrary: w v)
  case 0
  then show ?case by simp
next
  case (Suc i)
  let ?w3 = "delay 1 (digitalWrite (SCK_pin d) HIGH
               (fst (digitalRead (SO_pin d) (delay 1 (digitalWrite (SCK_pin d) LOW w)))))"
  let ?b = "SO_input w (SO_reads w)"
  let ?v = "if ?b then v OR push_bit i 1 else v"
  have step: "spiread_loop d (Suc i) (w, v) = spiread_loop d i (?w3, ?v)"
    by (simp add: Let_def split_beta delay_def digitalWrite_def digitalRead_def)
  have w3: "SO_input ?w3 = SO_input w" "SO_reads ?w3 = Suc (SO_reads w)"
    by (simp_all add: delay_def digitalWrite_def digitalRead_def)
  have v: "bit ?v j \<longleftrightarrow> bit v j \<or> (?b \<and> j = i \<and> j < 8)"
    by (auto simp add: bit_simps)
  have idx: "Suc (SO_reads w) + (i - 1 - j) = SO_reads w + (Suc i - 1 - j)" if "j < i"
    using that by arith
  show ?case
  proof (cases "j < i")
    case True
    then show ?thesis
      unfolding step Suc.IH w3 v using idx by auto
  next
    case False
    then show ?thesis
      unfolding step Suc.IH w3 v by (cases "j = i") auto
  qed
qed

lemma spiread_bits:
  "bit (snd (spiread d w)) j \<longleftrightarrow> j < 8 \<and> SO_input w (SO_reads w + (7 - j))"
  by (auto simp add: spiread_def spiread_loop_bits)

lemma spiread_world:
  "lastUpdate (fst (spiread d w)) = lastUpdate w \<and>
   SO_input (fst (spiread d w)) = SO_input w \<and>
   SO_reads (fst (spiread d w)) = SO_reads w + 8"
  by (simp add: spiread_def spiread_loop_world)

lemma readValue_world:
  "lastUpdate (fst (readValue rnd d w)) = lastUpdate w \<and>
   SO_input (fst (readValue rnd d w)) = SO_input w \<and>
   SO_reads (fst (readValue rnd d w)) = SO_reads w + 16"
proof -
  let ?w1 = "delay 1 (digitalWrite (CS_pin d) LOW w)"
  let ?w2 = "fst (spiread d ?w1)"
  let ?w3 = "fst (spiread d ?w2)"
  have 1: "lastUpdate ?w1 = lastUpdate w \<and> SO_input ?w1 = SO_input w \<and> SO_reads ?w1 = SO_reads w"
    by (simp add: delay_def digitalWrite_def)
  have "fst (readValue rnd d w) = digitalWrite (CS_pin d) HIGH ?w3"
    by (simp add: readValue_def Let_def split_beta)
  then show ?thesis
    using 1 spiread_world [of d ?w1] spiread_world [of d ?w2]
    by (simp add: digitalWrite_def)
qed

lemma ucast_and_4:
  fixes x :: "16 word"
  shows "(ucast x :: 32 word) AND 4 \<noteq> 0 \<longleftrightarrow> bit x 2"
proof -
  have "(4 :: 32 word) = 2 ^ 2" by simp
  then show ?thesis
    by (simp only: and_exp_eq_0_iff_not_bit) (simp add: bit_ucast_iff)
qed

lemma sint_shift_ucast:
  fixes x :: "16 word"
  shows "sint (signed_drop_bit 3 (ucast x :: 32 word)) = int (unat (drop_bit 3 x))"
proof -
  have 1: "signed_drop_bit 3 (ucast x :: 32 word) = ucast (drop_bit 3 x)"
  proof (rule bit_word_eqI)
    fix j assume "j < LENGTH(32)"
    have "n < 16" if "bit x n" for n
      using that bit_imp_le_length [of x n] by simp
    then have "\<not> bit x 31" "\<not> bit x (3 + j)" if "29 \<le> j"
      using that by fastforce+
    then show "bit (signed_drop_bit 3 (ucast x :: 32 word)) j \<longleftrightarrow>
               bit (ucast (drop_bit 3 x) :: 32 word) j"
      using \<open>j < LENGTH(32)\<close> by (auto simp add: bit_simps)
  qed
  have "signed_take_bit 31 (uint (drop_bit 3 x)) = uint (drop_bit 3 x)"
  proof (rule signed_take_bit_int_eq_self)
    show "- (2 ^ 31) \<le> uint (drop_bit 3 x)"
      by (rule order_trans [of _ 0]) simp_all
    show "uint (drop_bit 3 x) < 2 ^ 31"
      using uint_bounded [of "drop_bit 3 x"] by simp
  qed
  then have 2: "sint (ucast (drop_bit 3 x) :: 32 word) = uint (drop_bit 3 x)"
    by (simp add: signed_ucast_eq)
  show ?thesis by (simp add: 1 2)
qed

text \<open>
  If the line presents the 16-bit frame \<open>x\<close>, most significant bit first,
  the transaction returns not-a-number when bit 2 of \<open>x\<close> is set and the
  rounded product of \<open>x >> 3\<close> and 0.25 otherwise.
\<close>

lemma readValue_frame:
  fixes x :: "16 word"
  assumes line: "\<forall>k<16. SO_input w (SO_reads w + k) = bit x (15 - k)"
  shows "snd (readValue rnd d w) =
           (if bit x 2 then NaN else Fin (rnd (real (unat (drop_bit 3 x)) * (1 / 4))))"
proof -
  let ?w1 = "delay 1 (digitalWrite (CS_pin d) LOW w)"
  let ?b1 = "snd (spiread d ?w1)"
  let ?w2 = "fst (spiread d ?w1)"
  let ?b2 = "snd (spiread d ?w2)"
  let ?v3 = "push_bit 8 (ucast ?b1 :: c_int) OR ucast ?b2"
  have w1: "SO_input ?w1 = SO_input w" "SO_reads ?w1 = SO_reads w"
    by (simp_all add: delay_def digitalWrite_def)
  have w2: "SO_input ?w2 = SO_input w" "SO_reads ?w2 = SO_reads w + 8"
    using spiread_world [of d ?w1] w1 by simp_all
  have b1: "bit ?b1 j \<longleftrightarrow> j < 8 \<and> SO_input w (SO_reads w + (7 - j))" for j
    unfolding spiread_bits w1 ..
  have b2: "bit ?b2 j \<longleftrightarrow> j < 8 \<and> SO_input w (SO_reads w + 8 + (7 - j))" for j
    unfolding spiread_bits w2 ..
  define c1 where "c1 = ?b1"
  define c2 where "c2 = ?b2"
  have c1: "bit c1 j \<longleftrightarrow> j < 8 \<and> SO_input w (SO_reads w + (7 - j))" for j
    unfolding c1_def by (rule b1)
  have c2: "bit c2 j \<longleftrightarrow> j < 8 \<and> SO_input w (SO_reads w + 8 + (7 - j))" for j
    unfolding c2_def by (rule b2)
  have v3: "push_bit 8 (ucast c1 :: c_int) OR ucast c2 = ucast x"
  proof (rule bit_word_eqI)
    fix j assume "j < LENGTH(32)"
    show "bit (push_bit 8 (ucast c1 :: c_int) OR ucast c2) j \<longleftrightarrow> bit (ucast x :: c_int) j"
    proof (cases "j < 8")
      case True
      then have "8 + (7 - j) < 16" "15 - (8 + (7 - j)) = j" by arith+
      then have "SO_input w (SO_reads w + 8 + (7 - j)) = bit x j"
        using line [rule_format, of "8 + (7 - j)"] by (simp add: add.assoc)
      then show ?thesis
        using True by (simp add: bit_simps c1 c2)
    next
      case False
      show ?thesis
      proof (cases "j < 16")
        case True
        with False have "7 - (j - 8) < 16" "15 - (7 - (j - 8)) = j" by arith+
        then have "SO_input w (SO_reads w + (7 - (j - 8))) = bit x j"
          using line [rule_format, of "7 - (j - 8)"] by simp
        moreover have "j - 8 < 8" using True by arith
        ultimately show ?thesis
          using True False by (simp add: bit_simps c1 c2)
      next
        case False
        then have "\<not> j - 8 < 8" by arith
        moreover have "\<not> bit x j"
          using False bit_imp_le_length [of x j] by auto
        ultimately show ?thesis
          using False by (simp add: bit_simps c1 c2)
      qed
    qed
  qed
  then have v3: "?v3 = ucast x" unfolding c1_def c2_def .
  have "snd (readValue rnd d w) =
          (if ?v3 AND 4 \<noteq> 0 then NaN
           else dmul rnd (double_of_int (signed_drop_bit 3 ?v3)) (Fin (1 / 4)))"
    by (simp add: readValue_def Let_def split_beta)
  then have "snd (readValue rnd d w) =
          (if (ucast x :: c_int) AND 4 \<noteq> 0 then NaN
           else dmul rnd (double_of_int (signed_drop_bit 3 (ucast x))) (Fin (1 / 4)))"
    unfolding v3 .
  then show ?thesis
    by (simp add: ucast_and_4 sint_shift_ucast dmul_def double_of_int_def)
qed


text \<open>
  C4. Let the line present the 16-bit frame \<open>x\<close> most significant bit
  first, and let the rounding leave the quarters \<open>q / 4\<close> with \<open>q < 2^13\<close>
  as they are (they are binary64 numbers). If bit 2 of \<open>x\<close> is clear, the
  read returns \<open>(x >> 3) * 0.25\<close>; in particular it returns \<open>m * 0.25\<close> for
  the frame \<open>m << 3\<close> of a magnitude \<open>m \<le> 4095\<close>.
\<close>

theorem readValue_decodes:
  fixes x :: "16 word"
  assumes line: "\<forall>k<16. SO_input w (SO_reads w + k) = bit x (15 - k)"
    and exact: "\<forall>q<8192. rnd (real q / 4) = real q / 4"
  shows "(\<not> bit x 2 \<longrightarrow>
            snd (readValue rnd d w) = Fin (real (unat (drop_bit 3 x)) * 0.25)) \<and>
         (\<forall>m\<le>4095. x = push_bit 3 (word_of_nat m) \<longrightarrow>
            snd (readValue rnd d w) = Fin (real m * 0.25))"
proof -
  have "unat (drop_bit 3 x) < 8192"
  proof -
    have "unat x < 2 ^ 16" using unsigned_less [of x] by simp
    then have "unat x div 2 ^ 3 < 8192" by simp
    then show ?thesis unfolding unat_drop_bit_eq by (simp add: drop_bit_eq_div)
  qed
  then have "rnd (real (unat (drop_bit 3 x)) / 4) = real (unat (drop_bit 3 x)) / 4"
    using exact by blast
  then have r: "rnd (real (unat (drop_bit 3 x)) * (1 / 4)) = real (unat (drop_bit 3 x)) * (1 / 4)"
    by simp
  have general: "snd (readValue rnd d w) = Fin (real (unat (drop_bit 3 x)) * 0.25)"
    if "\<not> bit x 2"
    using that readValue_frame [OF line, of rnd d] r by simp
  have particular: "snd (readValue rnd d w) = Fin (real m * 0.25)"
    if m: "m \<le> 4095" and x: "x = push_bit 3 (word_of_nat m)" for m
  proof -
    have clear: "\<not> bit x 2" by (simp add: x bit_simps)
    have "m < 2 ^ 16" using m by simp
    then have "unat (word_of_nat m :: 16 word) = m"
      by (simp add: unat_of_nat take_bit_nat_eq_self)
    moreover have "drop_bit 3 x = (word_of_nat m :: 16 word)"
    proof (rule bit_word_eqI)
      fix j assume j: "j < LENGTH(16)"
      have "j < 13" if "bit (word_of_nat m :: 16 word) j"
      proof (rule ccontr)
        assume "\<not> j < 13"
        then have "2 ^ 13 \<le> (2 :: nat) ^ j" by (intro power_increasing) simp_all
        then have "m < 2 ^ j" using m by simp
        then have "\<not> bit m j" by (simp add: bit_iff_odd)
        then show False using that by (simp add: bit_simps)
      qed
      then show "bit (drop_bit 3 x) j \<longleftrightarrow> bit (word_of_nat m :: 16 word) j"
        using j by (auto simp add: x bit_simps)
    qed
    ultimately show ?thesis using general [OF clear] by simp
  qed
  show ?thesis using general particular by blast
qed

theorem readValue_decodes_witness:
  "\<not> bit (0x0280 :: 16 word) 2 \<and> (80 :: nat) \<le> 4095 \<and>
   (0x0280 :: 16 word) = push_bit 3 (word_of_nat 80) \<and>
   snd (readValue binary64 static_storage (power_up (frames_line [0x0280]))) = Fin 20"
proof -
  let ?w = "power_up (frames_line [0x0280])"
  have line: "\<forall>k<16. SO_input ?w (SO_reads ?w + k) = bit (0x0280 :: 16 word) (15 - k)"
    by (simp add: power_up_def frames_line_def)
  have exact: "\<forall>q<8192. binary64 (real q / 4) = real q / 4"
    using binary64_quarters by blast
  have x: "(0x0280 :: 16 word) = push_bit 3 (word_of_nat 80)" by simp
  have clear: "\<not> bit (0x0280 :: 16 word) 2" by simp
  have m: "(80 :: nat) \<le> 4095" by simp
  from readValue_decodes [OF line exact, of static_storage]
  have "\<forall>m\<le>4095. (0x0280 :: 16 word) = push_bit 3 (word_of_nat m) \<longrightarrow>
          snd (readValue binary64 static_storage ?w) = Fin (real m * 0.25)"
    by (rule conjunct2)
  from this [rule_format, OF m x]
  have "snd (readValue binary64 static_storage ?w) = Fin 20" by simp
  with clear m x show ?thesis by (intro conjI)
qed


subsection \<open>The gate\<close>

lemma store_frame:
  "delayTime (store rnd v d) = delayTime d \<and> readingsNumber (store rnd v d) = readingsNumber d"
  by (simp add: store_def recalculate_def Let_def)

lemma update_skips:
  "\<not> delayTime d < now - lastUpdate w \<Longrightarrow> update rnd now (w, d) = (w, d)"
  by (simp add: update_def)

lemma update_passes:
  "delayTime d < now - lastUpdate w \<Longrightarrow>
   update rnd now (w, d) =
     (fst (readValue rnd d (w\<lparr>lastUpdate := now\<rparr>)),
      store rnd (snd (readValue rnd d (w\<lparr>lastUpdate := now\<rparr>))) d)"
  by (simp add: update_def Let_def split_beta)

text \<open>
  C5. Two consecutive calls of \<^verbatim>\<open>update()\<close> at the timestamps \<open>now1\<close>
  and \<open>now2\<close>, with \<open>now2 - now1\<close> (unsigned, modulo \<open>2^32\<close>) not above the
  configured delay: one of the two calls leaves the whole state (world and
  object) as it was, and the two together sample the input line at most 16
  times, the length of one transaction. The comparison is strict, so a
  difference equal to the delay is gated as well.
\<close>

theorem update_gate:
  assumes "now2 - now1 \<le> delayTime (snd s)"
  shows "(update rnd now1 s = s \<or> update rnd now2 (update rnd now1 s) = update rnd now1 s) \<and>
         SO_reads (fst (update rnd now2 (update rnd now1 s))) \<le> SO_reads (fst s) + 16"
proof -
  obtain w d where s: "s = (w, d)" by (cases s)
  show ?thesis
  proof (cases "delayTime d < now1 - lastUpdate w")
    case False
    then have 1: "update rnd now1 s = s" by (simp add: s update_skips)
    have "SO_reads (fst (update rnd now2 s)) \<le> SO_reads (fst s) + 16"
      by (cases "delayTime d < now2 - lastUpdate w")
         (simp_all add: s update_skips update_passes readValue_world)
    with 1 show ?thesis by simp
  next
    case True
    let ?w1 = "fst (readValue rnd d (w\<lparr>lastUpdate := now1\<rparr>))"
    let ?d1 = "store rnd (snd (readValue rnd d (w\<lparr>lastUpdate := now1\<rparr>))) d"
    have u: "update rnd now1 s = (?w1, ?d1)" using True by (simp add: s update_passes)
    have "lastUpdate ?w1 = now1" by (simp add: readValue_world)
    moreover have "delayTime ?d1 = delayTime d" by (simp add: store_frame)
    ultimately have "\<not> delayTime ?d1 < now2 - lastUpdate ?w1"
      using assms by (simp add: s not_less)
    then have "update rnd now2 (?w1, ?d1) = (?w1, ?d1)" by (rule update_skips)
    then show ?thesis using u by (simp add: s readValue_world)
  qed
qed

theorem update_gate_witness:
  "(5 :: c_ulong) - 4294967286
     \<le> delayTime (snd (power_up (frames_line [0x0280]), construct5 13 10 12 5 250 static_storage)) \<and>
   SO_reads (fst (update binary64 4294967286
      (power_up (frames_line [0x0280]), construct5 13 10 12 5 250 static_storage))) = 16 \<and>
   update binary64 5
       (update binary64 4294967286
          (power_up (frames_line [0x0280]), construct5 13 10 12 5 250 static_storage))
      = update binary64 4294967286
          (power_up (frames_line [0x0280]), construct5 13 10 12 5 250 static_storage) \<and>
   SO_reads (fst (update binary64 5
       (update binary64 4294967286
          (power_up (frames_line [0x0280]), construct5 13 10 12 5 250 static_storage)))) = 16"
proof -
  let ?w = "power_up (frames_line [0x0280])"
  let ?d = "construct5 13 10 12 5 250 static_storage"
  let ?s1 = "update binary64 4294967286 (?w, ?d)"
  have dt: "delayTime ?d = 250"
    by (simp add: construct5_def setDelayTime_def setReadingsNumber_def validate_def)
  have h: "(5 :: c_ulong) - 4294967286 \<le> delayTime (snd (?w, ?d))"
    by (simp add: dt)
  have "delayTime ?d < 4294967286 - lastUpdate ?w"
    by (simp add: dt power_up_def)
  then have first: "SO_reads (fst ?s1) = 16"
    by (simp add: update_passes readValue_world power_up_def)
  moreover have "SO_reads (fst (?w, ?d)) = 0" by (simp add: power_up_def)
  ultimately have "?s1 \<noteq> (?w, ?d)" by auto
  with update_gate [OF h, of binary64] have second: "update binary64 5 ?s1 = ?s1"
    by blast
  show ?thesis using h first second by simp
qed

subsection \<open>Configuration\<close>

text \<open>
  C8. The window size and the delay are unsigned, so the only non-positive
  input is 0. At the constructor and at the setters, 0 becomes the default
  (5 readings, 250 ms) and every positive input is kept; \<open>validate\<close> and
  the setters are total and report no error.
\<close>

theorem validate_defaults:
  "validate 0 m = m \<and>
   readingsNumber (setReadingsNumber 0 d) = 5 \<and>
   delayTime (setDelayTime 0 d) = 250 \<and>
   readingsNumber (construct5 sck cs so 0 t raw) = 5 \<and>
   delayTime (construct5 sck cs so n 0 raw) = 250 \<and>
   (0 < n \<longrightarrow> validate n m = n \<and> readingsNumber (setReadingsNumber n d) = n \<and>
      readingsNumber (construct5 sck cs so n t raw) = n) \<and>
   (0 < t \<longrightarrow> delayTime (setDelayTime t d) = t \<and> delayTime (construct5 sck cs so n t raw) = t)"
  by (simp add: validate_def setReadingsNumber_def setDelayTime_def construct5_def
      MAX6675_DEFAULT_READINGS_NUMBER_def MAX6675_DEFAULT_DELAY_TIME_def)

theorem validate_defaults_witness:
  "(0 :: c_uint) < 7 \<and> (0 :: c_ulong) < 100 \<and>
   readingsNumber (setReadingsNumber 7 static_storage) = 7 \<and>
   readingsNumber (construct5 13 10 12 7 100 static_storage) = 7 \<and>
   delayTime (setDelayTime 100 static_storage) = 100 \<and>
   delayTime (construct5 13 10 12 7 100 static_storage) = 100 \<and>
   readingsNumber (construct5 13 10 12 0 0 static_storage) = 5 \<and>
   delayTime (construct5 13 10 12 0 0 static_storage) = 250"
  using validate_defaults [where m = 5 and d = static_storage and sck = 13 and cs = 10
      and so = 12 and raw = static_storage and n = 7 and t = 100]
    validate_defaults [where m = 5 and d = static_storage and sck = 13 and cs = 10
      and so = 12 and raw = static_storage and n = 0 and t = 0]
  by simp


subsection \<open>Reconfiguring the delay\<close>

text \<open>
  C10. \<^verbatim>\<open>setDelayTime\<close> changes the configured delay and nothing else: the
  queue, the window size, the cached mean and the pins are as before.
\<close>

theorem setDelayTime_frame:
  "dataPoints (setDelayTime t d) = dataPoints d \<and>
   readingsNumber (setDelayTime t d) = readingsNumber d \<and>
   meanTempC (setDelayTime t d) = meanTempC d \<and>
   setDelayTime t d = d\<lparr>delayTime := delayTime (setDelayTime t d)\<rparr>"
  by (simp add: setDelayTime_def)

subsection \<open>The accessors\<close>

text \<open>
  C9. \<^verbatim>\<open>readKelvin\<close> returns the cached mean plus 273.15 and
  \<^verbatim>\<open>readFahrenheit\<close> returns it times 9, divided by 5, plus 32, each
  operation rounded once, and without rounding \<open>c + 273.15\<close> and
  \<open>c * 9 / 5 + 32\<close>. Both are functions of the cached mean alone, return
  a value for every mean and nothing else, and return not-a-number when
  the mean is not a number.
\<close>

theorem conversions:
  "readKelvin rnd d =
     (case meanTempC d of NaN \<Rightarrow> NaN | Fin c \<Rightarrow> Fin (rnd (c + rnd 273.15))) \<and>
   readFahrenheit rnd d =
     (case meanTempC d of NaN \<Rightarrow> NaN | Fin c \<Rightarrow> Fin (rnd (rnd (rnd (c * 9) / 5) + 32))) \<and>
   readKelvin (\<lambda>r. r) d =
     (case meanTempC d of NaN \<Rightarrow> NaN | Fin c \<Rightarrow> Fin (c + 273.15)) \<and>
   readFahrenheit (\<lambda>r. r) d =
     (case meanTempC d of NaN \<Rightarrow> NaN | Fin c \<Rightarrow> Fin (c * 9 / 5 + 32))"
  by (simp add: readKelvin_def readFahrenheit_def celsiusToKelvin_def celsiusToFahrenheit_def
      readCelsius_def dadd_def dmul_def ddiv_def dlit_def double_of_int_def
      split: double.split)

subsection \<open>The queue\<close>

lemma dne_NaN: "dne v NaN"
  by (simp add: dne_def split: double.split)

lemma store_push:
  "store rnd v d =
     recalculate rnd
       (d\<lparr>dataPoints :=
            (if unat (readingsNumber d) \<le> length (dataPoints d)
             then tl (dataPoints d) else dataPoints d)
            @ [ddiv rnd v (double_of_uint (readingsNumber d))]\<rparr>)"
  by (simp add: store_def dne_NaN Let_def)

lemma dataPoints_store:
  "dataPoints (store rnd v d) =
     (if unat (readingsNumber d) \<le> length (dataPoints d)
      then tl (dataPoints d) else dataPoints d)
     @ [ddiv rnd v (double_of_uint (readingsNumber d))]"
  by (simp add: store_push recalculate_def)

lemma validate_pos: "0 < m \<Longrightarrow> 0 < validate n m"
  by (simp add: validate_def)

lemma store_bounded:
  assumes "length (dataPoints d) \<le> unat (readingsNumber d)" and "0 < readingsNumber d"
  shows "length (dataPoints (store rnd v d)) \<le> unat (readingsNumber d)"
proof -
  have "0 < unat (readingsNumber d)" using assms(2) by (simp add: word_less_nat_alt)
  then show ?thesis using assms(1) by (auto simp add: dataPoints_store)
qed

lemma reachable_inv:
  "reachable d \<Longrightarrow> length (dataPoints d) \<le> unat (readingsNumber d) \<and> 0 < readingsNumber d"
proof (induction rule: reachable.induct)
  case (constructed sck cs so n t raw)
  then show ?case
    by (simp add: construct5_def setDelayTime_def setReadingsNumber_def validate_pos
        MAX6675_DEFAULT_READINGS_NUMBER_def)
next
  case (updated d rnd now w)
  show ?case
  proof (cases "delayTime d < now - lastUpdate w")
    case True
    then show ?thesis
      using updated.IH store_bounded [of d rnd]
      by (simp add: update_passes store_frame)
  next
    case False
    then show ?thesis using updated.IH by (simp add: update_skips)
  qed
next
  case (window_set d n)
  then show ?case
    by (simp add: setReadingsNumber_def validate_pos MAX6675_DEFAULT_READINGS_NUMBER_def)
next
  case (delay_set d t)
  then show ?case by (simp add: setDelayTime_def)
qed

text \<open>
  C6. In every reachable object the queue is no longer than the window
  size, and it stays so after \<^verbatim>\<open>update\<close>, \<^verbatim>\<open>setReadingsNumber\<close> and
  \<^verbatim>\<open>setDelayTime\<close> (the accessors leave the object as it is). When the
  queue is at capacity, a call of \<^verbatim>\<open>update\<close> that passes the gate removes
  the oldest entry, the front, and appends the new one.
\<close>

theorem queue_bounded:
  assumes "reachable d"
  shows "length (dataPoints d) \<le> unat (readingsNumber d) \<and>
         length (dataPoints (snd (update rnd now (w, d)))) \<le> unat (readingsNumber d) \<and>
         length (dataPoints (setReadingsNumber n d)) \<le> unat (readingsNumber (setReadingsNumber n d)) \<and>
         length (dataPoints (setDelayTime t d)) \<le> unat (readingsNumber (setDelayTime t d)) \<and>
         (delayTime d < now - lastUpdate w \<and> length (dataPoints d) = unat (readingsNumber d) \<longrightarrow>
            dataPoints d \<noteq> [] \<and>
            (\<exists>v. dataPoints (snd (update rnd now (w, d))) = tl (dataPoints d) @ [v]))"
proof -
  have 1: "length (dataPoints d) \<le> unat (readingsNumber d)" and pos: "0 < readingsNumber d"
    using reachable_inv [OF assms] by simp_all
  have 2: "length (dataPoints (snd (update rnd now (w, d)))) \<le> unat (readingsNumber d)"
  proof -
    have "readingsNumber (snd (update rnd now (w, d))) = readingsNumber d"
      by (cases "delayTime d < now - lastUpdate w")
         (simp_all add: update_passes update_skips store_frame)
    then show ?thesis
      using reachable_inv [OF reachable.updated [OF assms, of rnd now w]] by simp
  qed
  have 3: "length (dataPoints (setReadingsNumber n d)) \<le> unat (readingsNumber (setReadingsNumber n d))"
    using reachable_inv [OF reachable.window_set [OF assms]] by simp
  have 4: "length (dataPoints (setDelayTime t d)) \<le> unat (readingsNumber (setDelayTime t d))"
    using reachable_inv [OF reachable.delay_set [OF assms]] by simp
  have 5: "dataPoints d \<noteq> [] \<and>
           (\<exists>v. dataPoints (snd (update rnd now (w, d))) = tl (dataPoints d) @ [v])"
    if "delayTime d < now - lastUpdate w" and "length (dataPoints d) = unat (readingsNumber d)"
  proof -
    have "0 < unat (readingsNumber d)" using pos by (simp add: word_less_nat_alt)
    then have "dataPoints d \<noteq> []" using that(2) by auto
    then show ?thesis using that by (simp add: update_passes dataPoints_store)
  qed
  show ?thesis using 1 2 3 4 5 by blast
qed

lemma dadd_NaN: "dadd rnd a NaN = NaN"
  by (simp add: dadd_def split: double.split)

lemma ddiv_NaN: "ddiv rnd NaN b = NaN"
  by (simp add: ddiv_def)

text \<open>
  A value that is not a number passes the comparison with \<^verbatim>\<open>NAN\<close> like any
  other: it enters the queue, and the recomputed mean is not a number.
\<close>

lemma store_NaN:
  "dataPoints (store rnd NaN d) =
     (if unat (readingsNumber d) \<le> length (dataPoints d)
      then tl (dataPoints d) else dataPoints d) @ [NaN] \<and>
   meanTempC (store rnd NaN d) = NaN"
  by (simp add: store_push recalculate_def ddiv_NaN dadd_NaN)

text \<open>A call that passes the gate stores what the transaction decodes.\<close>

lemma update_reads_frame:
  fixes x :: "16 word"
  assumes gate: "delayTime d < now - lastUpdate w"
    and line: "\<forall>k<16. SO_input w (SO_reads w + k) = bit x (15 - k)"
  shows "snd (update rnd now (w, d)) =
           store rnd (if bit x 2 then NaN
                      else Fin (rnd (real (unat (drop_bit 3 x)) * (1 / 4)))) d"
    and "lastUpdate (fst (update rnd now (w, d))) = now"
    and "SO_input (fst (update rnd now (w, d))) = SO_input w"
    and "SO_reads (fst (update rnd now (w, d))) = SO_reads w + 16"
proof -
  let ?w = "w\<lparr>lastUpdate := now\<rparr>"
  have "\<forall>k<16. SO_input ?w (SO_reads ?w + k) = bit x (15 - k)" using line by simp
  from readValue_frame [OF this, of rnd d]
  show "snd (update rnd now (w, d)) =
           store rnd (if bit x 2 then NaN
                      else Fin (rnd (real (unat (drop_bit 3 x)) * (1 / 4)))) d"
    using gate by (simp add: update_passes)
  show "lastUpdate (fst (update rnd now (w, d))) = now"
    and "SO_input (fst (update rnd now (w, d))) = SO_input w"
    and "SO_reads (fst (update rnd now (w, d))) = SO_reads w + 16"
    using gate by (simp_all add: update_passes readValue_world)
qed

subsection \<open>The bench\<close>

lemma frames_line_frame:
  assumes "n < length fs"
  shows "\<forall>k<16. frames_line fs (16 * n + k) = bit (fs ! n) (15 - k)"
  using assms by (simp add: frames_line_def)

lemma bench_construct:
  "construct5 13 10 12 1 250 static_storage =
     \<lparr>SCK_pin = 13, CS_pin = 10, SO_pin = 12, readingsNumber = 1, delayTime = 250,
      dataPoints = [], meanTempC = Fin 0\<rparr>"
  by (simp add: construct5_def setDelayTime_def setReadingsNumber_def validate_def
      static_storage_def)

text \<open>
  The bench: a window of one reading, a first transaction at 1000 ms that
  delivers the frame \<open>0x0280\<close> (80 quarters, 20 degrees).
\<close>

lemma bench_first_update:
  shows "snd (update binary64 1000
          (power_up (frames_line (0x0280 # fs)), construct5 13 10 12 1 250 static_storage)) =
     \<lparr>SCK_pin = 13, CS_pin = 10, SO_pin = 12, readingsNumber = 1, delayTime = 250,
      dataPoints = [Fin 20], meanTempC = Fin 20\<rparr>"
  and "lastUpdate (fst (update binary64 1000
          (power_up (frames_line (0x0280 # fs)), construct5 13 10 12 1 250 static_storage))) = 1000"
  and "SO_input (fst (update binary64 1000
          (power_up (frames_line (0x0280 # fs)), construct5 13 10 12 1 250 static_storage)))
        = frames_line (0x0280 # fs)"
  and "SO_reads (fst (update binary64 1000
          (power_up (frames_line (0x0280 # fs)), construct5 13 10 12 1 250 static_storage))) = 16"
proof -
  let ?w = "power_up (frames_line (0x0280 # fs))"
  let ?d = "construct5 13 10 12 1 250 static_storage"
  have gate: "delayTime ?d < 1000 - lastUpdate ?w"
    by (simp add: bench_construct power_up_def)
  have line: "\<forall>k<16. SO_input ?w (SO_reads ?w + k) = bit (0x0280 :: 16 word) (15 - k)"
    using frames_line_frame [of 0 "0x0280 # fs"] by (simp add: power_up_def)
  note u = update_reads_frame [OF gate line, of binary64]
  show "snd (update binary64 1000 (?w, ?d)) =
     \<lparr>SCK_pin = 13, CS_pin = 10, SO_pin = 12, readingsNumber = 1, delayTime = 250,
      dataPoints = [Fin 20], meanTempC = Fin 20\<rparr>"
    unfolding u(1)
    by (simp add: bench_construct store_push recalculate_def ddiv_def dadd_def
        double_of_uint_def binary64_bench)
  show "lastUpdate (fst (update binary64 1000 (?w, ?d))) = 1000"
    by (rule u(2))
  show "SO_input (fst (update binary64 1000 (?w, ?d))) = frames_line (0x0280 # fs)"
    unfolding u(3) by (simp add: power_up_def)
  show "SO_reads (fst (update binary64 1000 (?w, ?d))) = 16"
    unfolding u(4) by (simp add: power_up_def)
qed

text \<open>
  C1, which the code does not meet. The claim: a read with the
  open-thermocouple bit set leaves the queue and the mean as they were.
  The code: on the bench, after the reading of 20 degrees, a transaction at
  2000 ms delivers the frame \<open>0x0004\<close>, whose bit 2 is set. The read
  returns not-a-number, the comparison \<^verbatim>\<open>value != NAN\<close> holds, the
  reading 20 is evicted, not-a-number is stored and the mean becomes
  not-a-number.
\<close>

theorem fault_read_is_stored:
  "dataPoints (snd (update binary64 1000
      (power_up (frames_line [0x0280, 0x0004]), construct5 13 10 12 1 250 static_storage)))
     = [Fin 20] \<and>
   meanTempC (snd (update binary64 1000
      (power_up (frames_line [0x0280, 0x0004]), construct5 13 10 12 1 250 static_storage)))
     = Fin 20 \<and>
   bit (0x0004 :: 16 word) 2 \<and>
   dataPoints (snd (update binary64 2000 (update binary64 1000
      (power_up (frames_line [0x0280, 0x0004]), construct5 13 10 12 1 250 static_storage))))
     = [NaN] \<and>
   meanTempC (snd (update binary64 2000 (update binary64 1000
      (power_up (frames_line [0x0280, 0x0004]), construct5 13 10 12 1 250 static_storage))))
     = NaN"
proof -
  let ?s1 = "update binary64 1000
      (power_up (frames_line [0x0280, 0x0004]), construct5 13 10 12 1 250 static_storage)"
  note b = bench_first_update [of "[0x0004]"]
  have gate: "delayTime (snd ?s1) < 2000 - lastUpdate (fst ?s1)"
    by (simp add: b)
  have line: "\<forall>k<16. SO_input (fst ?s1) (SO_reads (fst ?s1) + k) = bit (0x0004 :: 16 word) (15 - k)"
    using frames_line_frame [of 1 "[0x0280, 0x0004]"] by (simp add: b)
  have "snd (update binary64 2000 ?s1) = store binary64 NaN (snd ?s1)"
    using update_reads_frame(1) [OF gate line, of binary64] by simp
  then have "dataPoints (snd (update binary64 2000 ?s1)) = [NaN]"
    and "meanTempC (snd (update binary64 2000 ?s1)) = NaN"
    by (simp_all add: store_NaN b)
  then show ?thesis by (simp add: b)
qed

theorem queue_bounded_witness:
  "reachable (snd (update binary64 1000
      (power_up (frames_line [0x0280, 0x0290]), construct5 13 10 12 1 250 static_storage))) \<and>
   delayTime (snd (update binary64 1000
      (power_up (frames_line [0x0280, 0x0290]), construct5 13 10 12 1 250 static_storage)))
     < 2000 - lastUpdate (fst (update binary64 1000
      (power_up (frames_line [0x0280, 0x0290]), construct5 13 10 12 1 250 static_storage))) \<and>
   length (dataPoints (snd (update binary64 1000
      (power_up (frames_line [0x0280, 0x0290]), construct5 13 10 12 1 250 static_storage))))
     = unat (readingsNumber (snd (update binary64 1000
      (power_up (frames_line [0x0280, 0x0290]), construct5 13 10 12 1 250 static_storage)))) \<and>
   length (dataPoints (snd (update binary64 2000 (update binary64 1000
      (power_up (frames_line [0x0280, 0x0290]), construct5 13 10 12 1 250 static_storage))))) \<le> 1 \<and>
   (\<exists>v. dataPoints (snd (update binary64 2000 (update binary64 1000
      (power_up (frames_line [0x0280, 0x0290]), construct5 13 10 12 1 250 static_storage))))
        = tl [Fin 20] @ [v])"
proof -
  let ?s0 = "(power_up (frames_line [0x0280, 0x0290]), construct5 13 10 12 1 250 static_storage)"
  let ?s1 = "update binary64 1000 ?s0"
  note b = bench_first_update [of "[0x0290]"]
  have reach: "reachable (snd ?s1)"
    by (rule reachable.updated [OF reachable.constructed])
  have gate: "delayTime (snd ?s1) < 2000 - lastUpdate (fst ?s1)"
    by (simp add: b)
  have full: "length (dataPoints (snd ?s1)) = unat (readingsNumber (snd ?s1))"
    by (simp add: b)
  from queue_bounded [OF reach, of binary64 2000 "fst ?s1" 1 1] gate full
  have "length (dataPoints (snd (update binary64 2000 ?s1))) \<le> unat (readingsNumber (snd ?s1))"
    and "\<exists>v. dataPoints (snd (update binary64 2000 ?s1)) = tl (dataPoints (snd ?s1)) @ [v]"
    by simp_all
  then have "length (dataPoints (snd (update binary64 2000 ?s1))) \<le> 1"
    and "\<exists>v. dataPoints (snd (update binary64 2000 ?s1)) = tl [Fin 20] @ [v]"
    by (simp_all add: b)
  with reach gate full show ?thesis by (intro conjI)
qed

text \<open>
  The cached mean is assigned by \<open>recalculate\<close> only: neither the
  constructor nor \<^verbatim>\<open>setReadingsNumber\<close> touches it.
\<close>

lemma setReadingsNumber_mean:
  "meanTempC (setReadingsNumber n d) = meanTempC d \<and> dataPoints (setReadingsNumber n d) = []"
  by (simp add: setReadingsNumber_def)

lemma construct5_mean:
  "meanTempC (construct5 sck cs so n t raw) = meanTempC raw \<and>
   dataPoints (construct5 sck cs so n t raw) = []"
  by (simp add: construct5_def setDelayTime_def setReadingsNumber_def)

lemma recalculate_sentinel:
  "length (dataPoints d) \<noteq> unat (readingsNumber d) \<Longrightarrow> meanTempC (recalculate rnd d) = NaN"
  by (simp add: recalculate_def)

text \<open>
  C3, which the code does not meet. The claim: while the queue holds fewer
  samples than the window size, every accessor returns not-a-number.
  The code, at two inputs. An object of static storage duration constructed
  with a window of 5 has an empty queue and a mean that nothing has
  assigned, so the accessors return 0 degrees Celsius, 273.15 Kelvin and 32
  degrees Fahrenheit. And on the bench, after the reading of 20 degrees,
  \<^verbatim>\<open>setReadingsNumber(3)\<close> leaves 0 of 3 samples in the queue and the
  accessor still returns 20 degrees Celsius.
\<close>

theorem mean_without_samples:
  "length (dataPoints (construct5 13 10 12 5 250 static_storage))
     < unat (readingsNumber (construct5 13 10 12 5 250 static_storage)) \<and>
   readCelsius (construct5 13 10 12 5 250 static_storage) = Fin 0 \<and>
   readKelvin binary64 (construct5 13 10 12 5 250 static_storage)
     = Fin (binary64 (0 + binary64 273.15)) \<and>
   readFahrenheit binary64 (construct5 13 10 12 5 250 static_storage) = Fin 32 \<and>
   length (dataPoints (setReadingsNumber 3 (snd (update binary64 1000
      (power_up (frames_line [0x0280]), construct5 13 10 12 1 250 static_storage)))))
     < unat (readingsNumber (setReadingsNumber 3 (snd (update binary64 1000
      (power_up (frames_line [0x0280]), construct5 13 10 12 1 250 static_storage))))) \<and>
   readCelsius (setReadingsNumber 3 (snd (update binary64 1000
      (power_up (frames_line [0x0280]), construct5 13 10 12 1 250 static_storage)))) = Fin 20"
proof -
  have fresh:
    "length (dataPoints (construct5 13 10 12 5 250 static_storage))
       < unat (readingsNumber (construct5 13 10 12 5 250 static_storage))"
    "readCelsius (construct5 13 10 12 5 250 static_storage) = Fin 0"
    "readKelvin binary64 (construct5 13 10 12 5 250 static_storage)
       = Fin (binary64 (0 + binary64 273.15))"
    "readFahrenheit binary64 (construct5 13 10 12 5 250 static_storage) = Fin 32"
    by (simp_all add: construct5_def setDelayTime_def setReadingsNumber_def validate_def
        static_storage_def readCelsius_def readKelvin_def readFahrenheit_def
        celsiusToKelvin_def celsiusToFahrenheit_def dadd_def dmul_def ddiv_def dlit_def
        double_of_int_def binary64_bench)
  have stale:
    "length (dataPoints (setReadingsNumber 3 (snd (update binary64 1000
        (power_up (frames_line [0x0280]), construct5 13 10 12 1 250 static_storage)))))
       < unat (readingsNumber (setReadingsNumber 3 (snd (update binary64 1000
        (power_up (frames_line [0x0280]), construct5 13 10 12 1 250 static_storage)))))"
    "readCelsius (setReadingsNumber 3 (snd (update binary64 1000
        (power_up (frames_line [0x0280]), construct5 13 10 12 1 250 static_storage)))) = Fin 20"
    by (simp_all add: bench_first_update [of "[]"] setReadingsNumber_def validate_def
        readCelsius_def)
  show ?thesis using fresh stale by (intro conjI)
qed

text \<open>
  C7, which the code does not meet. The claim: \<^verbatim>\<open>setReadingsNumber\<close>
  empties the queue, and the accessors return not-a-number until the new
  window is filled. The code: on the bench, after the reading of 20
  degrees, \<^verbatim>\<open>setReadingsNumber(5)\<close> empties the queue and leaves the mean
  alone, so the accessors still return 20 degrees Celsius, 293.15 Kelvin
  and 68 degrees Fahrenheit.
\<close>

theorem stale_mean_after_setReadingsNumber:
  "dataPoints (snd (update binary64 1000
      (power_up (frames_line [0x0280]), construct5 13 10 12 1 250 static_storage))) = [Fin 20] \<and>
   dataPoints (setReadingsNumber 5 (snd (update binary64 1000
      (power_up (frames_line [0x0280]), construct5 13 10 12 1 250 static_storage)))) = [] \<and>
   readingsNumber (setReadingsNumber 5 (snd (update binary64 1000
      (power_up (frames_line [0x0280]), construct5 13 10 12 1 250 static_storage)))) = 5 \<and>
   readCelsius (setReadingsNumber 5 (snd (update binary64 1000
      (power_up (frames_line [0x0280]), construct5 13 10 12 1 250 static_storage)))) = Fin 20 \<and>
   readKelvin binary64 (setReadingsNumber 5 (snd (update binary64 1000
      (power_up (frames_line [0x0280]), construct5 13 10 12 1 250 static_storage))))
     = Fin (binary64 (20 + binary64 273.15)) \<and>
   readFahrenheit binary64 (setReadingsNumber 5 (snd (update binary64 1000
      (power_up (frames_line [0x0280]), construct5 13 10 12 1 250 static_storage)))) = Fin 68"
  by (simp add: bench_first_update [of "[]"] setReadingsNumber_def validate_def
      readCelsius_def readKelvin_def readFahrenheit_def
      celsiusToKelvin_def celsiusToFahrenheit_def dadd_def dmul_def ddiv_def dlit_def
      double_of_int_def binary64_bench)

subsection \<open>The moving average\<close>

lemma drop_snoc_window:
  assumes "0 < w"
  shows "drop (length (drop (length xs - w) xs @ [y]) - w) (drop (length xs - w) xs @ [y])
         = drop (length (xs @ [y]) - w) (xs @ [y])"
proof (cases "w \<le> length xs")
  case True
  then have "length (drop (length xs - w) xs) = w" by simp
  then have "drop (length (drop (length xs - w) xs @ [y]) - w) (drop (length xs - w) xs @ [y])
      = drop 1 (drop (length xs - w) xs) @ [y]"
    using assms by simp
  also have "\<dots> = drop (Suc (length xs - w)) xs @ [y]" by simp
  also have "\<dots> = drop (length (xs @ [y]) - w) (xs @ [y])"
    using True assms by (simp add: Suc_diff_le)
  finally show ?thesis .
next
  case False
  then show ?thesis by simp
qed

lemma store_window:
  assumes "length (dataPoints d) \<le> unat (readingsNumber d)" and "0 < unat (readingsNumber d)"
  shows "dataPoints (store rnd v d) =
           drop (length (dataPoints d @ [ddiv rnd v (double_of_uint (readingsNumber d))])
                   - unat (readingsNumber d))
             (dataPoints d @ [ddiv rnd v (double_of_uint (readingsNumber d))])"
proof (cases "unat (readingsNumber d) \<le> length (dataPoints d)")
  case True
  then have "length (dataPoints d) = unat (readingsNumber d)" using assms(1) by simp
  moreover from this have "dataPoints d \<noteq> []" using assms(2) by auto
  ultimately show ?thesis
    using assms(2) by (simp add: dataPoints_store drop_Suc tl_drop)
next
  case False
  then show ?thesis by (simp add: dataPoints_store)
qed

text \<open>
  Feeding the values \<open>vs\<close> one after the other leaves the last \<open>w\<close> of what
  was stored, each value divided by the window size when it went in.
\<close>

lemma feed_window:
  assumes "length (dataPoints d) \<le> unat (readingsNumber d)" and "0 < unat (readingsNumber d)"
  shows "readingsNumber (foldl (\<lambda>d v. store rnd v d) d vs) = readingsNumber d \<and>
         dataPoints (foldl (\<lambda>d v. store rnd v d) d vs) =
           drop (length (dataPoints d @ map (\<lambda>v. ddiv rnd v (double_of_uint (readingsNumber d))) vs)
                   - unat (readingsNumber d))
             (dataPoints d @ map (\<lambda>v. ddiv rnd v (double_of_uint (readingsNumber d))) vs)"
proof (induction vs rule: rev_induct)
  case Nil
  then show ?case using assms(1) by simp
next
  case (snoc v vs)
  let ?d = "foldl (\<lambda>d v. store rnd v d) d vs"
  let ?f = "\<lambda>v. ddiv rnd v (double_of_uint (readingsNumber d))"
  let ?xs = "dataPoints d @ map ?f vs"
  have rn: "readingsNumber ?d = readingsNumber d" using snoc.IH by simp
  have dp: "dataPoints ?d = drop (length ?xs - unat (readingsNumber d)) ?xs" using snoc.IH by simp
  have len: "length (dataPoints ?d) \<le> unat (readingsNumber ?d)"
    unfolding dp rn by simp
  have "dataPoints (store rnd v ?d) =
          drop (length (dataPoints ?d @ [?f v]) - unat (readingsNumber d)) (dataPoints ?d @ [?f v])"
    using store_window [OF len, of rnd v] assms(2) by (simp add: rn)
  also have "\<dots> = drop (length (?xs @ [?f v]) - unat (readingsNumber d)) (?xs @ [?f v])"
    unfolding dp by (rule drop_snoc_window [OF assms(2)])
  finally show ?case by (simp add: store_frame rn)
qed

lemma meanTempC_store:
  "meanTempC (store rnd v d) =
     (if length (dataPoints (store rnd v d)) \<noteq> unat (readingsNumber d) then NaN
      else foldl (dadd rnd) (Fin 0) (dataPoints (store rnd v d)))"
  by (simp add: store_push recalculate_def)

text \<open>The sum that \<open>recalculate\<close> computes over finite elements, and its error.\<close>

lemma foldl_dadd_Fin:
  "foldl (dadd rnd) (Fin a) (map Fin xs) = Fin (foldl (\<lambda>a x. rnd (a + x)) a xs)"
  by (induction xs arbitrary: a) (simp_all add: dadd_def)

lemma rounded_sum_error:
  fixes rnd :: rounding
  assumes eps: "0 \<le> eps" and rnd: "\<And>x. \<bar>rnd x - x\<bar> \<le> eps * \<bar>x\<bar>"
  shows "\<bar>foldl (\<lambda>a x. rnd (a + x)) 0 xs - sum_list xs\<bar>
           \<le> ((1 + eps) ^ length xs - 1) * sum_list (map abs xs)"
proof (induction xs rule: rev_induct)
  case Nil
  then show ?case by simp
next
  case (snoc x xs)
  define S where "S = foldl (\<lambda>a x. rnd (a + x)) 0 xs"
  define A where "A = sum_list (map abs xs)"
  define p where "p = (1 + eps) ^ length xs"
  have p1: "1 \<le> p" unfolding p_def using eps by (intro one_le_power) simp
  have A0: "0 \<le> A" unfolding A_def by (rule sum_list_nonneg) auto
  have IH: "\<bar>S - sum_list xs\<bar> \<le> (p - 1) * A"
    using snoc.IH by (simp add: S_def A_def p_def)
  have "\<bar>sum_list xs\<bar> \<le> A" unfolding A_def by (rule sum_list_abs)
  then have "\<bar>S\<bar> \<le> A + (p - 1) * A" using IH by linarith
  then have S: "\<bar>S\<bar> \<le> p * A" by (simp add: algebra_simps)
  have "\<bar>x\<bar> \<le> p * \<bar>x\<bar>" using p1 by (simp add: mult_left_le_one_le mult_le_cancel_right1)
  then have T: "\<bar>S + x\<bar> \<le> p * (A + \<bar>x\<bar>)" using S by (simp add: algebra_simps)
  have "eps * \<bar>S + x\<bar> \<le> eps * (p * (A + \<bar>x\<bar>))"
    using T eps by (rule mult_left_mono)
  then have R: "\<bar>rnd (S + x) - (S + x)\<bar> \<le> eps * (p * (A + \<bar>x\<bar>))"
    using rnd [of "S + x"] by linarith
  have "0 \<le> (p - 1) * \<bar>x\<bar>" using p1 by simp
  then have "(p - 1) * A \<le> (p - 1) * (A + \<bar>x\<bar>)" by (simp add: algebra_simps)
  then have "\<bar>rnd (S + x) - (sum_list xs + x)\<bar>
               \<le> eps * (p * (A + \<bar>x\<bar>)) + (p - 1) * (A + \<bar>x\<bar>)"
    using R IH by linarith
  also have "\<dots> = ((1 + eps) * p - 1) * (A + \<bar>x\<bar>)" by (simp add: algebra_simps)
  finally show ?case by (simp add: S_def A_def p_def)
qed

lemma predivision_error:
  fixes rnd :: rounding and w :: real
  assumes eps: "0 \<le> eps" and rnd: "\<And>x. \<bar>rnd x - x\<bar> \<le> eps * \<bar>x\<bar>" and w: "0 < w"
  shows "\<bar>sum_list (map (\<lambda>s. rnd (s / w)) xs) - sum_list xs / w\<bar>
           \<le> eps * (sum_list (map abs xs) / w) \<and>
         sum_list (map abs (map (\<lambda>s. rnd (s / w)) xs))
           \<le> (1 + eps) * (sum_list (map abs xs) / w)"
proof (induction xs)
  case Nil
  then show ?case by simp
next
  case (Cons x xs)
  define y where "y = x / w"
  define r where "r = rnd y"
  define R where "R = sum_list (map (\<lambda>s. rnd (s / w)) xs)"
  define A where "A = sum_list (map abs xs) / w"
  have y: "\<bar>y\<bar> = \<bar>x\<bar> / w" using w by (simp add: y_def)
  have e: "\<bar>r - y\<bar> \<le> eps * \<bar>y\<bar>" unfolding r_def by (rule rnd)
  have "(1 + eps) * \<bar>y\<bar> = \<bar>y\<bar> + eps * \<bar>y\<bar>" by (simp add: algebra_simps)
  then have a: "\<bar>r\<bar> \<le> (1 + eps) * \<bar>y\<bar>" using e by linarith
  have IH1: "\<bar>R - sum_list xs / w\<bar> \<le> eps * A"
    and IH2: "sum_list (map abs (map (\<lambda>s. rnd (s / w)) xs)) \<le> (1 + eps) * A"
    using Cons.IH by (simp_all add: R_def A_def)
  have split: "sum_list (map abs (x # xs)) / w = \<bar>y\<bar> + A"
    by (simp add: y A_def add_divide_distrib)
  have "\<bar>(r + R) - (y + sum_list xs / w)\<bar> \<le> eps * \<bar>y\<bar> + eps * A"
    using e IH1 by linarith
  then have 1: "\<bar>sum_list (map (\<lambda>s. rnd (s / w)) (x # xs)) - sum_list (x # xs) / w\<bar>
                  \<le> eps * (sum_list (map abs (x # xs)) / w)"
    unfolding split by (simp add: r_def y_def R_def add_divide_distrib algebra_simps)
  have "\<bar>r\<bar> + sum_list (map abs (map (\<lambda>s. rnd (s / w)) xs))
          \<le> (1 + eps) * \<bar>y\<bar> + (1 + eps) * A"
    using a IH2 by linarith
  then have 2: "sum_list (map abs (map (\<lambda>s. rnd (s / w)) (x # xs)))
                  \<le> (1 + eps) * (sum_list (map abs (x # xs)) / w)"
    unfolding split by (simp add: r_def y_def algebra_simps)
  show ?case using 1 2 by (rule conjI)
qed

text \<open>
  The values \<open>ss\<close> stored one after the other: the queue holds the last
  \<open>w\<close> of them, each divided by \<open>w\<close> when it went in; the mean is the sum
  folded over the queue; and the error of the mean is bounded in terms of
  the relative error \<open>eps\<close> of the rounding.
\<close>

lemma store_average:
  fixes ss :: "real list"
  assumes inv: "length (dataPoints d) \<le> unat (readingsNumber d)"
    and w: "0 < unat (readingsNumber d)"
    and n: "unat (readingsNumber d) \<le> length ss"
  shows "dataPoints (foldl (\<lambda>d v. store rnd v d) d (map Fin ss)) =
           map (\<lambda>s. Fin (rnd (s / real (unat (readingsNumber d)))))
             (drop (length ss - unat (readingsNumber d)) ss) \<and>
         meanTempC (foldl (\<lambda>d v. store rnd v d) d (map Fin ss)) =
           foldl (dadd rnd) (Fin 0) (dataPoints (foldl (\<lambda>d v. store rnd v d) d (map Fin ss))) \<and>
         (\<forall>eps. 0 \<le> eps \<and> (\<forall>x. \<bar>rnd x - x\<bar> \<le> eps * \<bar>x\<bar>) \<longrightarrow>
            (\<exists>m. meanTempC (foldl (\<lambda>d v. store rnd v d) d (map Fin ss)) = Fin m \<and>
               \<bar>m - sum_list (drop (length ss - unat (readingsNumber d)) ss)
                      / real (unat (readingsNumber d))\<bar>
                 \<le> ((1 + eps) ^ (unat (readingsNumber d) + 1) - 1)
                    * (sum_list (map abs (drop (length ss - unat (readingsNumber d)) ss))
                         / real (unat (readingsNumber d)))))"
proof -
  define k where "k = unat (readingsNumber d)"
  define window where "window = drop (length ss - k) ss"
  define qs where "qs = map (\<lambda>s. rnd (s / real k)) window"
  let ?d = "foldl (\<lambda>d v. store rnd v d) d (map Fin ss)"
  have k: "0 < k" "k \<le> length ss" "length (dataPoints d) \<le> k"
    using assms by (simp_all add: k_def)
  have "double_of_uint (readingsNumber d) = Fin (real k)"
    by (simp add: double_of_uint_def k_def)
  moreover have "ddiv rnd (Fin s) (Fin (real k)) = Fin (rnd (s / real k))" for s
    using k(1) by (simp add: ddiv_def)
  ultimately have f: "ddiv rnd (Fin s) (double_of_uint (readingsNumber d)) = Fin (rnd (s / real k))"
    for s by simp
  have lw: "length window = k" using k(2) by (simp add: window_def)
  \<comment> \<open>the queue\<close>
  have "dataPoints ?d =
          drop (length (dataPoints d @ map (\<lambda>s. Fin (rnd (s / real k))) ss) - k)
            (dataPoints d @ map (\<lambda>s. Fin (rnd (s / real k))) ss)"
    using feed_window [OF inv w, of rnd "map Fin ss"] by (simp add: k_def f comp_def)
  also have "\<dots> = drop (length ss - k) (map (\<lambda>s. Fin (rnd (s / real k))) ss)"
    using k(2) by simp
  also have "\<dots> = map (\<lambda>s. Fin (rnd (s / real k))) window"
    by (simp add: window_def drop_map)
  finally have queue: "dataPoints ?d = map (\<lambda>s. Fin (rnd (s / real k))) window" .
  then have queue': "dataPoints ?d = map Fin qs" by (simp add: qs_def comp_def)
  \<comment> \<open>the mean\<close>
  have "ss \<noteq> []" using k by auto
  then obtain ss' s where ss: "ss = ss' @ [s]" by (metis rev_exhaust)
  let ?d' = "foldl (\<lambda>d v. store rnd v d) d (map Fin ss')"
  have last_step: "?d = store rnd (Fin s) ?d'" by (simp add: ss)
  have "readingsNumber ?d' = readingsNumber d"
    using feed_window [OF inv w, of rnd "map Fin ss'"] by simp
  then have "meanTempC ?d =
      (if length (dataPoints ?d) \<noteq> k then NaN else foldl (dadd rnd) (Fin 0) (dataPoints ?d))"
    unfolding last_step by (simp add: meanTempC_store k_def)
  then have mean: "meanTempC ?d = foldl (dadd rnd) (Fin 0) (dataPoints ?d)"
    by (simp add: queue lw)
  \<comment> \<open>the tolerance\<close>
  have tol: "\<exists>m. meanTempC ?d = Fin m \<and>
               \<bar>m - sum_list window / real k\<bar>
                 \<le> ((1 + eps) ^ (k + 1) - 1) * (sum_list (map abs window) / real k)"
    if eps: "0 \<le> eps" and rnd: "\<forall>x. \<bar>rnd x - x\<bar> \<le> eps * \<bar>x\<bar>" for eps
  proof -
    define m where "m = foldl (\<lambda>a x. rnd (a + x)) 0 qs"
    define B where "B = sum_list (map abs window) / real k"
    define p where "p = (1 + eps) ^ k"
    have m: "meanTempC ?d = Fin m"
      unfolding mean queue' m_def by (rule foldl_dadd_Fin)
    have p1: "1 \<le> p" unfolding p_def using eps by (intro one_le_power) simp
    have B0: "0 \<le> B" unfolding B_def using k(1) by (intro divide_nonneg_nonneg sum_list_nonneg) auto
    have "length qs = k" by (simp add: qs_def lw)
    then have 1: "\<bar>m - sum_list qs\<bar> \<le> (p - 1) * sum_list (map abs qs)"
      using rounded_sum_error [OF eps, of rnd qs] rnd by (simp add: m_def p_def)
    have 2: "\<bar>sum_list qs - sum_list window / real k\<bar> \<le> eps * B"
      and 3: "sum_list (map abs qs) \<le> (1 + eps) * B"
      using predivision_error [OF eps, of rnd "real k" window] rnd k(1)
      by (simp_all add: qs_def B_def)
    have "(p - 1) * sum_list (map abs qs) \<le> (p - 1) * ((1 + eps) * B)"
      using 3 p1 by (intro mult_left_mono) simp_all
    then have "\<bar>m - sum_list window / real k\<bar> \<le> (p - 1) * ((1 + eps) * B) + eps * B"
      using 1 2 by linarith
    also have "\<dots> = ((1 + eps) ^ (k + 1) - 1) * B"
      by (simp add: p_def algebra_simps)
    finally show ?thesis using m by (auto simp add: B_def)
  qed
  show ?thesis
    using queue mean tol unfolding k_def window_def by blast
qed

text \<open>
  A run of calls that all pass the gate stores, one after the other, what
  the transactions decode from the frames on the line.
\<close>

lemma updates_store:
  fixes fs :: "16 word list"
  assumes "spaced (delayTime d) (lastUpdate w) nows"
    and "length fs = length nows"
    and "\<forall>i<length fs. \<forall>k<16. SO_input w (SO_reads w + 16 * i + k) = bit (fs ! i) (15 - k)"
  shows "snd (updates rnd nows (w, d)) =
           foldl (\<lambda>d v. store rnd v d) d
             (map (\<lambda>x. if bit x 2 then NaN
                        else Fin (rnd (real (unat (drop_bit 3 x)) * (1 / 4)))) fs)"
  using assms
proof (induction nows arbitrary: w d fs)
  case Nil
  then show ?case by simp
next
  case (Cons now nows)
  then obtain x fs' where fs: "fs = x # fs'" by (cases fs) auto
  let ?v = "if bit x 2 then NaN else Fin (rnd (real (unat (drop_bit 3 x)) * (1 / 4)))"
  let ?s = "update rnd now (w, d)"
  have gate: "delayTime d < now - lastUpdate w" using Cons.prems(1) by simp
  have line: "\<forall>k<16. SO_input w (SO_reads w + k) = bit x (15 - k)"
    using Cons.prems(3) [rule_format, of 0] by (simp add: fs)
  note u = update_reads_frame [OF gate line, of rnd]
  have s: "?s = (fst ?s, store rnd ?v d)" using u(1) by (simp add: prod_eq_iff)
  have 1: "spaced (delayTime (store rnd ?v d)) (lastUpdate (fst ?s)) nows"
    using Cons.prems(1) by (simp add: u(2) store_frame)
  have 2: "length fs' = length nows" using Cons.prems(2) by (simp add: fs)
  have 3: "\<forall>i<length fs'. \<forall>k<16.
             SO_input (fst ?s) (SO_reads (fst ?s) + 16 * i + k) = bit (fs' ! i) (15 - k)"
  proof (intro allI impI)
    fix i k assume i: "i < length fs'" and k: "k < (16 :: nat)"
    have "Suc i < length fs" using i by (simp add: fs)
    then have "SO_input w (SO_reads w + 16 * Suc i + k) = bit (fs ! Suc i) (15 - k)"
      using Cons.prems(3) k by blast
    then show "SO_input (fst ?s) (SO_reads (fst ?s) + 16 * i + k) = bit (fs' ! i) (15 - k)"
      by (simp add: u(3) u(4) fs add.assoc)
  qed
  have "snd (updates rnd (now # nows) (w, d)) = snd (updates rnd nows (fst ?s, store rnd ?v d))"
    using s by simp
  also have "\<dots> = foldl (\<lambda>d v. store rnd v d) (store rnd ?v d)
             (map (\<lambda>x. if bit x 2 then NaN
                        else Fin (rnd (real (unat (drop_bit 3 x)) * (1 / 4)))) fs')"
    by (rule Cons.IH [OF 1 2 3])
  finally show ?case by (simp add: fs)
qed

text \<open>
  C2. Let the window size be at least 1 and the queue no longer than the
  window. Let \<open>n\<close> calls of \<^verbatim>\<open>update()\<close> pass the gate and read the frames
  \<open>fs\<close>, all with bit 2 clear, so that the valid samples \<open>ss\<close> are the
  decoded frames, and let \<open>n\<close> be at least the window size \<open>w\<close>. Then
  the queue holds exactly the last \<open>w\<close> samples, each divided by \<open>w\<close> (and
  rounded) when it was inserted; the cached mean is the sum that
  \<^verbatim>\<open>recalculate\<close> folds over the stored elements, with no division; and
  if the rounding has relative error at most \<open>eps\<close>, the mean differs from
  the sum of the last \<open>w\<close> samples divided by \<open>w\<close> by at most
  \<open>(1 + eps)^(w+1) - 1\<close> times the sum of their absolute values divided
  by \<open>w\<close>.
\<close>

theorem moving_average:
  fixes fs :: "16 word list"
  assumes inv: "length (dataPoints d) \<le> unat (readingsNumber d)"
    and size: "0 < unat (readingsNumber d)"
    and gate: "spaced (delayTime d) (lastUpdate w) nows"
    and frames: "length fs = length nows"
      "\<forall>i<length fs. \<forall>k<16. SO_input w (SO_reads w + 16 * i + k) = bit (fs ! i) (15 - k)"
    and valid: "\<forall>x\<in>set fs. \<not> bit x 2"
    and n: "unat (readingsNumber d) \<le> length fs"
    and ss: "ss = map (\<lambda>x. rnd (real (unat (drop_bit 3 x)) * 0.25)) fs"
  shows "dataPoints (snd (updates rnd nows (w, d))) =
           map (\<lambda>s. Fin (rnd (s / real (unat (readingsNumber d)))))
             (drop (length ss - unat (readingsNumber d)) ss) \<and>
         meanTempC (snd (updates rnd nows (w, d))) =
           foldl (dadd rnd) (Fin 0) (dataPoints (snd (updates rnd nows (w, d)))) \<and>
         (\<forall>eps. 0 \<le> eps \<and> (\<forall>x. \<bar>rnd x - x\<bar> \<le> eps * \<bar>x\<bar>) \<longrightarrow>
            (\<exists>m. meanTempC (snd (updates rnd nows (w, d))) = Fin m \<and>
               \<bar>m - sum_list (drop (length ss - unat (readingsNumber d)) ss)
                      / real (unat (readingsNumber d))\<bar>
                 \<le> ((1 + eps) ^ (unat (readingsNumber d) + 1) - 1)
                    * (sum_list (map abs (drop (length ss - unat (readingsNumber d)) ss))
                         / real (unat (readingsNumber d)))))"
proof -
  have "map (\<lambda>x. if bit x 2 then NaN else Fin (rnd (real (unat (drop_bit 3 x)) * (1 / 4)))) fs
          = map Fin ss"
    using valid by (simp add: ss)
  then have run: "snd (updates rnd nows (w, d)) = foldl (\<lambda>d v. store rnd v d) d (map Fin ss)"
    using updates_store [OF gate frames, of rnd] by simp
  have "unat (readingsNumber d) \<le> length ss" using n by (simp add: ss)
  from store_average [OF inv size this, of rnd] show ?thesis
    unfolding run .
qed

lemma frames_line_frames:
  "\<forall>i<length fs. \<forall>k<16. frames_line fs (16 * i + k) = bit (fs ! i) (15 - k)"
  using frames_line_frame by blast

theorem moving_average_witness:
  "length (dataPoints (construct5 13 10 12 2 250 static_storage))
     \<le> unat (readingsNumber (construct5 13 10 12 2 250 static_storage)) \<and>
   0 < unat (readingsNumber (construct5 13 10 12 2 250 static_storage)) \<and>
   spaced (delayTime (construct5 13 10 12 2 250 static_storage))
     (lastUpdate (power_up (frames_line [0x0280, 0x02A0, 0x02C0]))) [1000, 2000, 3000] \<and>
   \<not> bit (0x0280 :: 16 word) 2 \<and> \<not> bit (0x02A0 :: 16 word) 2 \<and> \<not> bit (0x02C0 :: 16 word) 2 \<and>
   map (\<lambda>x :: 16 word. binary64 (real (unat (drop_bit 3 x)) * 0.25)) [0x0280, 0x02A0, 0x02C0]
     = [20, 21, 22] \<and>
   (\<forall>x. \<bar>binary64 x - x\<bar> \<le> 1 / 2 ^ 53 * \<bar>x\<bar>) \<and>
   dataPoints (snd (updates binary64 [1000, 2000, 3000]
      (power_up (frames_line [0x0280, 0x02A0, 0x02C0]), construct5 13 10 12 2 250 static_storage)))
     = [Fin 10.5, Fin 11] \<and>
   meanTempC (snd (updates binary64 [1000, 2000, 3000]
      (power_up (frames_line [0x0280, 0x02A0, 0x02C0]), construct5 13 10 12 2 250 static_storage)))
     = Fin 21.5 \<and>
   (\<exists>m. meanTempC (snd (updates binary64 [1000, 2000, 3000]
      (power_up (frames_line [0x0280, 0x02A0, 0x02C0]), construct5 13 10 12 2 250 static_storage)))
        = Fin m \<and>
      \<bar>m - (21 + 22) / 2\<bar> \<le> ((1 + 1 / 2 ^ 53) ^ 3 - 1) * ((21 + 22) / 2))"
proof -
  let ?d = "construct5 13 10 12 2 250 static_storage"
  let ?fs = "[0x0280, 0x02A0, 0x02C0] :: 16 word list"
  let ?w = "power_up (frames_line ?fs)"
  let ?d' = "snd (updates binary64 [1000, 2000, 3000] (?w, ?d))"
  have rn: "readingsNumber ?d = 2" and dp: "dataPoints ?d = []" and dt: "delayTime ?d = 250"
    by (simp_all add: construct5_def setDelayTime_def setReadingsNumber_def validate_def)
  have h1: "length (dataPoints ?d) \<le> unat (readingsNumber ?d)" by (simp add: rn dp)
  have h2: "0 < unat (readingsNumber ?d)" by (simp add: rn)
  have h3: "spaced (delayTime ?d) (lastUpdate ?w) [1000, 2000, 3000]"
    by (simp add: dt power_up_def)
  have h4: "length ?fs = length [1000, 2000, 3000 :: c_ulong]" by simp
  have h5: "\<forall>i<length ?fs. \<forall>k<16. SO_input ?w (SO_reads ?w + 16 * i + k) = bit (?fs ! i) (15 - k)"
    using frames_line_frames [of ?fs] by (simp add: power_up_def)
  have h6: "\<forall>x\<in>set ?fs. \<not> bit x 2" by simp
  have h7: "unat (readingsNumber ?d) \<le> length ?fs" by (simp add: rn)
  have h8: "[20, 21, 22] = map (\<lambda>x :: 16 word. binary64 (real (unat (drop_bit 3 x)) * 0.25)) ?fs"
    by (simp add: binary64_bench)
  have err: "\<forall>x. \<bar>binary64 x - x\<bar> \<le> 1 / 2 ^ 53 * \<bar>x\<bar>"
    using binary64_error by simp
  note ma = moving_average [OF h1 h2 h3 h4 h5 h6 h7 h8]
  have queue: "dataPoints ?d' = [Fin 10.5, Fin 11]"
    using ma [THEN conjunct1] by (simp add: rn binary64_bench)
  have "meanTempC ?d' = foldl (dadd binary64) (Fin 0) (dataPoints ?d')"
    by (rule ma [THEN conjunct2, THEN conjunct1])
  then have "meanTempC ?d' = foldl (dadd binary64) (Fin 0) [Fin 10.5, Fin 11]"
    unfolding queue .
  then have mean: "meanTempC ?d' = Fin 21.5"
    by (simp add: dadd_def binary64_bench)
  have "0 \<le> (1 / 2 ^ 53 :: real) \<and> (\<forall>x. \<bar>binary64 x - x\<bar> \<le> 1 / 2 ^ 53 * \<bar>x\<bar>)"
    using err by simp
  with ma [THEN conjunct2, THEN conjunct2]
  have "\<exists>m. meanTempC ?d' = Fin m \<and>
          \<bar>m - sum_list (drop (length [20, 21, 22 :: real] - unat (readingsNumber ?d)) [20, 21, 22])
                 / real (unat (readingsNumber ?d))\<bar>
            \<le> ((1 + 1 / 2 ^ 53) ^ (unat (readingsNumber ?d) + 1) - 1)
               * (sum_list (map abs (drop (length [20, 21, 22 :: real] - unat (readingsNumber ?d))
                    [20, 21, 22])) / real (unat (readingsNumber ?d)))"
    by blast
  then have tol: "\<exists>m. meanTempC ?d' = Fin m \<and>
      \<bar>m - (21 + 22) / 2\<bar> \<le> ((1 + 1 / 2 ^ 53) ^ 3 - 1) * ((21 + 22) / 2)"
    by (simp add: rn)
  have h6': "\<not> bit (0x0280 :: 16 word) 2" "\<not> bit (0x02A0 :: 16 word) 2" "\<not> bit (0x02C0 :: 16 word) 2"
    by simp_all
  show ?thesis using h1 h2 h3 h6' h8 [symmetric] err queue mean tol by (intro conjI)
qed

end
